theory Spec2Isabelle
  imports Complex_Main
begin

section \<open>NumPy floating-point values over exact reals\<close>

text \<open>
  The two scripts compute with NumPy doubles. Rounding is not modelled: a finite double is
  an exact real. What is modelled is the part of IEEE arithmetic that decides what the
  scripts return at the edge of the domain: \<open>np.log(0)\<close> is \<open>-inf\<close> (a
  warning, not an exception), the logarithm of a negative number is \<open>nan\<close>, and the
  infinities propagate through \<open>tanh\<close>, \<open>exp\<close> and the arithmetic operators.
  None of these operations raises. Signed zeros are not modelled: a zero divisor counts as
  \<open>+0.0\<close>.
\<close>

datatype npfloat = Fin real | PInf | NInf | NaN

fun np_sign :: "npfloat \<Rightarrow> real" where
  "np_sign (Fin x) = sgn x"
| "np_sign PInf = 1"
| "np_sign NInf = - 1"
| "np_sign NaN = 0"

definition np_inf :: "real \<Rightarrow> npfloat" where
  \<comment> \<open>the infinity of the given sign; a zero sign is an invalid operation\<close>
  "np_inf s = (if s > 0 then PInf else if s < 0 then NInf else NaN)"

fun np_neg :: "npfloat \<Rightarrow> npfloat" where
  "np_neg (Fin x) = Fin (- x)"
| "np_neg PInf = NInf"
| "np_neg NInf = PInf"
| "np_neg NaN = NaN"

fun np_add :: "npfloat \<Rightarrow> npfloat \<Rightarrow> npfloat" where
  "np_add NaN _ = NaN"
| "np_add _ NaN = NaN"
| "np_add (Fin x) (Fin y) = Fin (x + y)"
| "np_add (Fin x) b = b"
| "np_add a (Fin y) = a"
| "np_add PInf PInf = PInf"
| "np_add NInf NInf = NInf"
| "np_add PInf NInf = NaN"
| "np_add NInf PInf = NaN"

definition np_sub :: "npfloat \<Rightarrow> npfloat \<Rightarrow> npfloat" where
  "np_sub a b = np_add a (np_neg b)"

fun np_mul :: "npfloat \<Rightarrow> npfloat \<Rightarrow> npfloat" where
  "np_mul NaN _ = NaN"
| "np_mul _ NaN = NaN"
| "np_mul (Fin x) (Fin y) = Fin (x * y)"
| "np_mul a b = np_inf (np_sign a * np_sign b)"

fun np_div :: "npfloat \<Rightarrow> npfloat \<Rightarrow> npfloat" where
  "np_div NaN _ = NaN"
| "np_div _ NaN = NaN"
| "np_div (Fin x) (Fin y) = (if y = 0 then np_inf (sgn x) else Fin (x / y))"
| "np_div (Fin x) b = Fin 0"
| "np_div a (Fin y) = (if y = 0 then a else np_inf (np_sign a * sgn y))"
| "np_div a b = NaN"

definition np_square :: "npfloat \<Rightarrow> npfloat" where
  \<comment> \<open>\<open>z**2\<close>\<close>
  "np_square z = np_mul z z"

fun np_log :: "npfloat \<Rightarrow> npfloat" where
  "np_log (Fin x) = (if x > 0 then Fin (ln x) else if x = 0 then NInf else NaN)"
| "np_log PInf = PInf"
| "np_log NInf = NaN"
| "np_log NaN = NaN"

fun np_exp :: "npfloat \<Rightarrow> npfloat" where
  "np_exp (Fin x) = Fin (exp x)"
| "np_exp PInf = PInf"
| "np_exp NInf = Fin 0"
| "np_exp NaN = NaN"

fun np_tanh :: "npfloat \<Rightarrow> npfloat" where
  "np_tanh (Fin x) = Fin (tanh x)"
| "np_tanh PInf = Fin 1"
| "np_tanh NInf = Fin (- 1)"
| "np_tanh NaN = NaN"

section \<open>App2.py: the hand-rolled log-normal functions\<close>

definition total_pop :: real where
  "total_pop = 20000000"

definition mu :: real where
  "mu = 10.45"

definition sigma :: real where
  "sigma = 0.95"

definition scale :: real where
  "scale = exp mu"

definition lognorm_pdf :: "real \<Rightarrow> real \<Rightarrow> real \<Rightarrow> npfloat" where
  "lognorm_pdf x s scl =
     np_mul (np_div (Fin 1) (Fin (x * s * sqrt (2 * pi))))
            (np_exp (np_div (np_neg (np_square (np_sub (np_log (Fin x)) (np_log (Fin scl)))))
                            (Fin (2 * s\<^sup>2))))"

definition lognorm_z :: "real \<Rightarrow> real \<Rightarrow> real \<Rightarrow> npfloat" where
  \<comment> \<open>the local \<open>z\<close> of \<open>lognorm_cdf\<close>\<close>
  "lognorm_z x s scl = np_div (np_sub (np_log (Fin x)) (np_log (Fin scl))) (Fin s)"

definition lognorm_cdf :: "real \<Rightarrow> real \<Rightarrow> real \<Rightarrow> npfloat" where
  "lognorm_cdf x s scl =
     (let z = lognorm_z x s scl in
      np_mul (Fin 0.5)
        (np_add (np_add (Fin 1) (np_tanh (np_div (np_mul (Fin (sqrt 2)) z) (Fin 2))))
                (np_mul (Fin (sqrt (2 / pi))) (np_exp (np_div (np_neg (np_square z)) (Fin 2))))))"

text \<open>The results block of App2.py, as functions of the two slider values.\<close>

definition prob :: "real \<Rightarrow> real \<Rightarrow> npfloat" where
  "prob min_income max_income =
     np_sub (lognorm_cdf max_income sigma scale) (lognorm_cdf min_income sigma scale)"

definition people :: "real \<Rightarrow> real \<Rightarrow> npfloat" where
  "people min_income max_income = np_mul (prob min_income max_income) (Fin total_pop)"

definition percent :: "real \<Rightarrow> real \<Rightarrow> npfloat" where
  "percent min_income max_income = np_mul (prob min_income max_income) (Fin 100)"

text \<open>The display grid and the two series computed over it.\<close>

definition linspace :: "real \<Rightarrow> real \<Rightarrow> nat \<Rightarrow> real list" where
  \<comment> \<open>\<open>np.linspace(start, stop, num)\<close> for \<open>num > 1\<close>: \<open>num\<close> evenly spaced
      samples, both ends included\<close>
  "linspace start stop num =
     map (\<lambda>i. start + real i * ((stop - start) / real (num - 1))) [0..<num]"

definition income_range_App2 :: "real list" where
  "income_range_App2 = linspace 1 300000 1000"

definition pdf :: "npfloat list" where
  "pdf = map (\<lambda>x. lognorm_pdf x sigma scale) income_range_App2"

definition cdf :: "npfloat list" where
  "cdf = map (\<lambda>x. lognorm_cdf x sigma scale) income_range_App2"

section \<open>app.py: the library-based script\<close>

text \<open>
  app.py calls \<open>scipy.stats.lognorm\<close>, a third-party library whose code is not part of
  the repository. Its density and cumulative function are modelled below. The error function
  is given by its Maclaurin series,
  \<open>erf x = 2 / sqrt pi * (x - x^3 / 3 + x^5 / 10 - x^7 / 42 + ...)\<close>.
\<close>

definition gauss_coeff :: "nat \<Rightarrow> real" where
  "gauss_coeff n = (- 1) ^ n / (fact n * (2 * real n + 1))"

definition gauss_series :: "real \<Rightarrow> real" where
  "gauss_series y = (\<Sum>n. gauss_coeff n * y ^ n)"

definition gauss_int :: "real \<Rightarrow> real" where
  \<comment> \<open>the integral of \<open>exp (- t\<^sup>2)\<close> from 0 to \<open>x\<close>, integrated term by term\<close>
  "gauss_int x = x * gauss_series (x\<^sup>2)"

definition erf :: "real \<Rightarrow> real" where
  "erf x = 2 / sqrt pi * gauss_int x"

definition norm_cdf :: "real \<Rightarrow> real" where
  \<comment> \<open>the standard normal cumulative distribution, computed via the error function\<close>
  "norm_cdf z = (1 + erf (z / sqrt 2)) / 2"

definition scipy_lognorm_pdf :: "real \<Rightarrow> real \<Rightarrow> real \<Rightarrow> real" where
  \<comment> \<open>Modelled from the spec: \<open>scipy.stats.lognorm.pdf(x, s, scale=scl)\<close>, a function
      of a third-party library whose code is not in the repository. It is the standard
      log-normal density with shape \<open>s\<close> and scale \<open>scl\<close>, and 0 by convention for
      \<open>x \<le> 0\<close>.\<close>
  "scipy_lognorm_pdf x s scl =
     (if x > 0 then 1 / (x * s * sqrt (2 * pi)) * exp (- (ln x - ln scl)\<^sup>2 / (2 * s\<^sup>2))
      else 0)"

definition scipy_lognorm_cdf :: "real \<Rightarrow> real \<Rightarrow> real \<Rightarrow> real" where
  \<comment> \<open>Modelled from the spec: \<open>scipy.stats.lognorm.cdf(x, s, scale=scl)\<close>, a function
      of a third-party library whose code is not in the repository. It is the standard
      normal cumulative distribution applied to \<open>(ln x - ln scl) / s\<close>, and 0 for
      \<open>x \<le> 0\<close>.\<close>
  "scipy_lognorm_cdf x s scl = (if x > 0 then norm_cdf ((ln x - ln scl) / s) else 0)"

definition total_population :: real where
  "total_population = 20000000"

definition income_range_app :: "real list" where
  "income_range_app = linspace 0 300000 1000"

definition pdf_values :: "real list" where
  "pdf_values = map (\<lambda>x. scipy_lognorm_pdf x sigma (exp mu)) income_range_app"

definition cdf_values :: "real list" where
  "cdf_values = map (\<lambda>x. scipy_lognorm_cdf x sigma (exp mu)) income_range_app"

definition prob_between :: "real \<Rightarrow> real \<Rightarrow> real" where
  "prob_between min_income max_income =
     scipy_lognorm_cdf max_income sigma (exp mu) - scipy_lognorm_cdf min_income sigma (exp mu)"

definition num_people :: "real \<Rightarrow> real \<Rightarrow> real" where
  "num_people min_income max_income = prob_between min_income max_income * total_population"

definition percentage :: "real \<Rightarrow> real \<Rightarrow> real" where
  "percentage min_income max_income = prob_between min_income max_income * 100"



section \<open>The operations of the specification\<close>


section \<open>Auxiliary definitions\<close>

definition cdf_formula :: "real \<Rightarrow> real" where
  \<comment> \<open>the return expression of \<open>lognorm_cdf\<close> at a finite \<open>z\<close>\<close>
  "cdf_formula z = 0.5 * (1 + tanh (sqrt 2 * z / 2) + sqrt (2 / pi) * exp (- z\<^sup>2 / 2))"

text \<open>
  A Riemann sum, over \<open>n\<close> cells of \<open>[0, 1]\<close> sampled at their left (\<open>d = 0\<close>)
  or right (\<open>d = 1\<close>) ends, of \<open>exp (- x\<^sup>2 (1 + t\<^sup>2)) / (1 + t\<^sup>2)\<close>. It is used to
  bound the Gaussian integral.
\<close>

definition hsum :: "nat \<Rightarrow> nat \<Rightarrow> real \<Rightarrow> real" where
  "hsum n d x =
     (\<Sum>k<n. exp (- x\<^sup>2 * (1 + (real (k + d) / real n)\<^sup>2)) / (1 + (real (k + d) / real n)\<^sup>2) / real n)"

section \<open>Evaluation of the hand-rolled functions\<close>

text \<open>On positive arguments the two functions are the real formulas they spell out.\<close>

lemma lognorm_z_pos:
  assumes "0 < x" "0 < scl" "s \<noteq> 0"
  shows "lognorm_z x s scl = Fin ((ln x - ln scl) / s)"
  using assms by (simp add: lognorm_z_def np_sub_def)

lemma lognorm_cdf_pos:
  assumes "0 < x" "0 < scl" "s \<noteq> 0"
  shows "lognorm_cdf x s scl = Fin (cdf_formula ((ln x - ln scl) / s))"
  using assms
  by (simp add: lognorm_cdf_def lognorm_z_pos cdf_formula_def np_square_def power2_eq_square)

lemma lognorm_cdf_zero:
  assumes "0 < scl" "0 < s"
  shows "lognorm_cdf 0 s scl = Fin 0"
  using assms
  by (simp add: lognorm_cdf_def lognorm_z_def np_sub_def np_square_def np_inf_def)


lemma scale_pos: "0 < scale"
  by (simp add: scale_def)

lemma sigma_pos: "0 < sigma"
  by (simp add: sigma_def)


section \<open>The error function\<close>

subsection \<open>The series and its derivative\<close>

lemma gauss_coeff_summable: "summable (\<lambda>n. gauss_coeff n * y ^ n)"
proof (rule summable_comparison_test [OF _ summable_norm_exp [of y]])
  show "\<exists>N. \<forall>n\<ge>N. norm (gauss_coeff n * y ^ n) \<le> norm (y ^ n /\<^sub>R fact n)"
  proof (intro exI allI impI)
    fix n :: nat
    have "1 \<le> 2 * real n + 1" by simp
    then have "\<bar>y\<bar> ^ n / (fact n * (2 * real n + 1)) \<le> \<bar>y\<bar> ^ n / (fact n * 1)"
      by (intro divide_left_mono mult_left_mono) simp_all
    then show "norm (gauss_coeff n * y ^ n) \<le> norm (y ^ n /\<^sub>R fact n)"
      by (simp add: gauss_coeff_def abs_mult power_abs divide_inverse mult.commute)
  qed
qed

lemma gauss_series_deriv:
  "DERIV gauss_series y :> (\<Sum>n. diffs gauss_coeff n * y ^ n)"
  unfolding gauss_series_def
  by (rule termdiffs_strong_converges_everywhere) (rule gauss_coeff_summable)

lemma gauss_series_ode:
  "gauss_series y + 2 * y * (\<Sum>n. diffs gauss_coeff n * y ^ n) = exp (- y)"
proof -
  have sd: "summable (\<lambda>n. diffs gauss_coeff n * y ^ n)"
    by (rule termdiff_converges_all) (rule gauss_coeff_summable)
  have s1: "(\<lambda>n. real n * gauss_coeff n * y ^ (n - Suc 0)) sums (\<Sum>n. diffs gauss_coeff n * y ^ n)"
    by (rule diffs_equiv [OF sd])
  have "(\<lambda>n. 2 * y * (real n * gauss_coeff n * y ^ (n - Suc 0))) sums
          (2 * y * (\<Sum>n. diffs gauss_coeff n * y ^ n))"
    by (rule sums_mult [OF s1])
  moreover have "(\<lambda>n. 2 * y * (real n * gauss_coeff n * y ^ (n - Suc 0)))
                 = (\<lambda>n. 2 * real n * gauss_coeff n * y ^ n)"
  proof
    fix n show "2 * y * (real n * gauss_coeff n * y ^ (n - Suc 0)) = 2 * real n * gauss_coeff n * y ^ n"
      by (cases n) simp_all
  qed
  ultimately have s2: "(\<lambda>n. 2 * real n * gauss_coeff n * y ^ n) sums
          (2 * y * (\<Sum>n. diffs gauss_coeff n * y ^ n))"
    by simp
  have s3: "(\<lambda>n. gauss_coeff n * y ^ n) sums gauss_series y"
    unfolding gauss_series_def by (rule summable_sums [OF gauss_coeff_summable])
  have "(\<lambda>n. gauss_coeff n * y ^ n + 2 * real n * gauss_coeff n * y ^ n) sums
          (gauss_series y + 2 * y * (\<Sum>n. diffs gauss_coeff n * y ^ n))"
    by (rule sums_add [OF s3 s2])
  moreover have "(\<lambda>n. gauss_coeff n * y ^ n + 2 * real n * gauss_coeff n * y ^ n)
                 = (\<lambda>n. (- y) ^ n /\<^sub>R fact n)"
  proof
    fix n
    have "gauss_coeff n * y ^ n + 2 * real n * gauss_coeff n * y ^ n
            = ((2 * real n + 1) * gauss_coeff n) * y ^ n"
      by (simp add: algebra_simps)
    also have "(2 * real n + 1) * gauss_coeff n = (- 1) ^ n / fact n"
      by (simp add: gauss_coeff_def add_nonneg_eq_0_iff)
    also have "(- 1) ^ n / fact n * y ^ n = (- y) ^ n /\<^sub>R fact n"
      by (simp add: power_minus [of y] divide_inverse mult_ac)
    finally show "gauss_coeff n * y ^ n + 2 * real n * gauss_coeff n * y ^ n = (- y) ^ n /\<^sub>R fact n" .
  qed
  ultimately have "(\<lambda>n. (- y) ^ n /\<^sub>R fact n) sums
          (gauss_series y + 2 * y * (\<Sum>n. diffs gauss_coeff n * y ^ n))"
    by simp
  then show ?thesis
    using exp_converges [of "- y"] sums_unique2 by blast
qed


lemma gauss_int_deriv: "DERIV gauss_int x :> exp (- x\<^sup>2)"
proof -
  have "DERIV (\<lambda>x. x * gauss_series (x\<^sup>2)) x :>
          1 * gauss_series (x\<^sup>2) + (\<Sum>n. diffs gauss_coeff n * (x\<^sup>2) ^ n) * (2 * x) * x"
    by (rule derivative_eq_intros DERIV_chain2 [OF gauss_series_deriv] refl | simp)+
  moreover have "1 * gauss_series (x\<^sup>2) + (\<Sum>n. diffs gauss_coeff n * (x\<^sup>2) ^ n) * (2 * x) * x
                 = exp (- x\<^sup>2)"
    using gauss_series_ode [of "x\<^sup>2"] by (simp add: power2_eq_square algebra_simps)
  ultimately show ?thesis
    by (simp add: gauss_int_def [abs_def])
qed

subsection \<open>Riemann sums against an antiderivative\<close>

lemma gauss_int_0: "gauss_int 0 = 0"
  by (simp add: gauss_int_def)

lemma antiderivative_diff_le:
  fixes F f :: "real \<Rightarrow> real"
  assumes "a \<le> b"
    and der: "\<And>t. a \<le> t \<Longrightarrow> t \<le> b \<Longrightarrow> DERIV F t :> f t"
    and bnd: "\<And>t. a \<le> t \<Longrightarrow> t \<le> b \<Longrightarrow> f t \<le> c"
  shows "F b - F a \<le> (b - a) * c"
proof -
  have "(\<lambda>t. F t - t * c) b \<le> (\<lambda>t. F t - t * c) a"
  proof (rule DERIV_nonpos_imp_nonincreasing [OF assms(1)])
    fix t assume t: "a \<le> t" "t \<le> b"
    have "DERIV (\<lambda>t. F t - t * c) t :> f t - c"
      by (rule derivative_eq_intros der [OF t] refl | simp)+
    moreover have "f t - c \<le> 0" using bnd [OF t] by simp
    ultimately show "\<exists>y. DERIV (\<lambda>t. F t - t * c) t :> y \<and> y \<le> 0"
      by blast
  qed
  then show ?thesis by (simp add: algebra_simps)
qed

lemma antiderivative_diff_ge:
  fixes F f :: "real \<Rightarrow> real"
  assumes "a \<le> b"
    and der: "\<And>t. a \<le> t \<Longrightarrow> t \<le> b \<Longrightarrow> DERIV F t :> f t"
    and bnd: "\<And>t. a \<le> t \<Longrightarrow> t \<le> b \<Longrightarrow> c \<le> f t"
  shows "(b - a) * c \<le> F b - F a"
proof -
  have "(\<lambda>t. F t - t * c) a \<le> (\<lambda>t. F t - t * c) b"
  proof (rule DERIV_nonneg_imp_nondecreasing [OF assms(1)])
    fix t assume t: "a \<le> t" "t \<le> b"
    have "DERIV (\<lambda>t. F t - t * c) t :> f t - c"
      by (rule derivative_eq_intros der [OF t] refl | simp)+
    moreover have "0 \<le> f t - c" using bnd [OF t] by simp
    ultimately show "\<exists>y. DERIV (\<lambda>t. F t - t * c) t :> y \<and> 0 \<le> y"
      by blast
  qed
  then show ?thesis by (simp add: algebra_simps)
qed

text \<open>Riemann sums of a non-increasing integrand enclose the increment of an antiderivative.\<close>

lemma grid_step:
  assumes "0 \<le> x" "0 < n" "k < n"
  shows "0 \<le> x * real k / real n"
    and "x * real k / real n \<le> x * real (Suc k) / real n"
    and "x * real (Suc k) / real n \<le> x"
    and "x * real (Suc k) / real n - x * real k / real n = x / real n"
proof -
  show "0 \<le> x * real k / real n" using assms by simp
  show "x * real k / real n \<le> x * real (Suc k) / real n"
    using assms by (intro divide_right_mono mult_left_mono) simp_all
  have "real (Suc k) \<le> real n" using assms(3) by simp
  then have "x * real (Suc k) \<le> x * real n"
    using assms(1) by (rule mult_left_mono)
  then show "x * real (Suc k) / real n \<le> x"
    using assms(2) by (simp add: pos_divide_le_eq)
  show "x * real (Suc k) / real n - x * real k / real n = x / real n"
    by (simp add: algebra_simps add_divide_distrib)
qed

lemma telescope_grid:
  fixes F :: "real \<Rightarrow> real"
  assumes "0 < n"
  shows "(\<Sum>k<n. F (x * real (Suc k) / real n) - F (x * real k / real n)) = F x - F 0"
proof -
  have "(\<Sum>k<n. F (x * real (Suc k) / real n) - F (x * real k / real n))
          = F (x * real n / real n) - F (x * real 0 / real n)"
    by (rule sum_lessThan_telescope)
  also have "\<dots> = F x - F 0"
    using assms by simp
  finally show ?thesis .
qed

lemma right_sum_le:
  fixes F f :: "real \<Rightarrow> real"
  assumes x: "0 \<le> x" and n: "0 < n"
    and der: "\<And>t. 0 \<le> t \<Longrightarrow> t \<le> x \<Longrightarrow> DERIV F t :> f t"
    and anti: "\<And>s t. 0 \<le> s \<Longrightarrow> s \<le> t \<Longrightarrow> t \<le> x \<Longrightarrow> f t \<le> f s"
  shows "(\<Sum>k<n. x / real n * f (x * real (Suc k) / real n)) \<le> F x - F 0"
proof -
  have "(\<Sum>k<n. x / real n * f (x * real (Suc k) / real n))
          \<le> (\<Sum>k<n. F (x * real (Suc k) / real n) - F (x * real k / real n))"
  proof (rule sum_mono)
    fix k assume "k \<in> {..<n}"
    then have k: "k < n" by simp
    note g = grid_step [OF x n k]
    have "(x * real (Suc k) / real n - x * real k / real n) * f (x * real (Suc k) / real n)
            \<le> F (x * real (Suc k) / real n) - F (x * real k / real n)"
    proof (rule antiderivative_diff_ge [OF g(2)])
      fix t assume t: "x * real k / real n \<le> t" "t \<le> x * real (Suc k) / real n"
      have t0: "0 \<le> t" using g(1) t(1) by linarith
      have tx: "t \<le> x" using g(3) t(2) by linarith
      show "DERIV F t :> f t" by (rule der [OF t0 tx])
      show "f (x * real (Suc k) / real n) \<le> f t" by (rule anti [OF t0 t(2) g(3)])
    qed
    then show "x / real n * f (x * real (Suc k) / real n)
            \<le> F (x * real (Suc k) / real n) - F (x * real k / real n)"
      by (simp only: g(4))
  qed
  then show ?thesis by (simp only: telescope_grid [OF n])
qed

lemma left_sum_ge:
  fixes F f :: "real \<Rightarrow> real"
  assumes x: "0 \<le> x" and n: "0 < n"
    and der: "\<And>t. 0 \<le> t \<Longrightarrow> t \<le> x \<Longrightarrow> DERIV F t :> f t"
    and anti: "\<And>s t. 0 \<le> s \<Longrightarrow> s \<le> t \<Longrightarrow> t \<le> x \<Longrightarrow> f t \<le> f s"
  shows "F x - F 0 \<le> (\<Sum>k<n. x / real n * f (x * real k / real n))"
proof -
  have "(\<Sum>k<n. F (x * real (Suc k) / real n) - F (x * real k / real n))
          \<le> (\<Sum>k<n. x / real n * f (x * real k / real n))"
  proof (rule sum_mono)
    fix k assume "k \<in> {..<n}"
    then have k: "k < n" by simp
    note g = grid_step [OF x n k]
    have "F (x * real (Suc k) / real n) - F (x * real k / real n)
            \<le> (x * real (Suc k) / real n - x * real k / real n) * f (x * real k / real n)"
    proof (rule antiderivative_diff_le [OF g(2)])
      fix t assume t: "x * real k / real n \<le> t" "t \<le> x * real (Suc k) / real n"
      have t0: "0 \<le> t" using g(1) t(1) by linarith
      have tx: "t \<le> x" using g(3) t(2) by linarith
      show "DERIV F t :> f t" by (rule der [OF t0 tx])
      show "f t \<le> f (x * real k / real n)" by (rule anti [OF g(1) t(1) tx])
    qed
    then show "F (x * real (Suc k) / real n) - F (x * real k / real n)
            \<le> x / real n * f (x * real k / real n)"
      by (simp only: g(4))
  qed
  then show ?thesis by (simp only: telescope_grid [OF n])
qed

lemma exp_minus_square_antimono:
  fixes s t :: real
  assumes "0 \<le> s" "s \<le> t"
  shows "exp (- t\<^sup>2) \<le> exp (- s\<^sup>2)"
  using assms by (simp add: power_mono)

lemma gauss_int_le_left_sum:
  assumes "0 \<le> x" "0 < n"
  shows "gauss_int x \<le> (\<Sum>k<n. x / real n * exp (- (x * real k / real n)\<^sup>2))"
  using left_sum_ge [of x n gauss_int "\<lambda>t. exp (- t\<^sup>2)", OF assms gauss_int_deriv
      exp_minus_square_antimono]
  by (simp add: gauss_int_0)

lemma gauss_int_ge_right_sum:
  assumes "0 \<le> x" "0 < n"
  shows "(\<Sum>k<n. x / real n * exp (- (x * real (Suc k) / real n)\<^sup>2)) \<le> gauss_int x"
  using right_sum_le [of x n gauss_int "\<lambda>t. exp (- t\<^sup>2)", OF assms gauss_int_deriv
      exp_minus_square_antimono]
  by (simp add: gauss_int_0)

lemma inverse_square_antimono:
  fixes s t :: real
  assumes "0 \<le> s" "s \<le> t"
  shows "inverse (1 + t\<^sup>2) \<le> inverse (1 + s\<^sup>2)"
proof -
  have "s\<^sup>2 \<le> t\<^sup>2" using assms by (simp add: power_mono)
  moreover have "0 < 1 + s\<^sup>2" by (simp add: add_pos_nonneg)
  ultimately show ?thesis by (intro le_imp_inverse_le) simp_all
qed

lemma arctan_le_left_sum:
  assumes "0 < n"
  shows "pi / 4 \<le> (\<Sum>k<n. 1 / real n * inverse (1 + (1 * real k / real n)\<^sup>2))"
  using left_sum_ge [of 1 n arctan "\<lambda>t. inverse (1 + t\<^sup>2)", OF _ assms DERIV_arctan
      inverse_square_antimono]
  by (simp add: arctan_one)

lemma arctan_ge_right_sum:
  assumes "0 < n"
  shows "(\<Sum>k<n. 1 / real n * inverse (1 + (1 * real (Suc k) / real n)\<^sup>2)) \<le> pi / 4"
  using right_sum_le [of 1 n arctan "\<lambda>t. inverse (1 + t\<^sup>2)", OF _ assms DERIV_arctan
      inverse_square_antimono]
  by (simp add: arctan_one)

subsection \<open>The Gaussian integral\<close>

lemma cancel_weight:
  fixes c m x :: real
  assumes "0 < c"
  shows "(- (2 * x) * c) * (1 / c / m) = - 2 * (x / m)"
  using assms by simp

lemma hsum_deriv:
  "DERIV (hsum n d) x :>
     (\<Sum>k<n. - 2 * exp (- x\<^sup>2) * (x / real n * exp (- (x * real (k + d) / real n)\<^sup>2)))"
proof -
  have "DERIV (\<lambda>x. \<Sum>k<n. exp (- x\<^sup>2 * (1 + (real (k + d) / real n)\<^sup>2))
                              / (1 + (real (k + d) / real n)\<^sup>2) / real n) x :>
     (\<Sum>k<n. - 2 * exp (- x\<^sup>2) * (x / real n * exp (- (x * real (k + d) / real n)\<^sup>2)))"
  proof (rule DERIV_sum)
    fix k
    let ?c = "1 + (real (k + d) / real n)\<^sup>2"
    have c: "0 < ?c" by (simp add: add_pos_nonneg)
    have "DERIV (\<lambda>x. exp (- x\<^sup>2 * ?c) * (1 / ?c / real n)) x :>
            exp (- x\<^sup>2 * ?c) * (- (2 * x) * ?c) * (1 / ?c / real n)"
      by (rule derivative_eq_intros refl | simp)+
    moreover have "(\<lambda>x. exp (- x\<^sup>2 * ?c) * (1 / ?c / real n))
                 = (\<lambda>x. exp (- x\<^sup>2 * ?c) / ?c / real n)"
      by simp
    moreover have "exp (- x\<^sup>2 * ?c) * (- (2 * x) * ?c) * (1 / ?c / real n)
            = - 2 * exp (- x\<^sup>2) * (x / real n * exp (- (x * real (k + d) / real n)\<^sup>2))"
    proof -
      have "(x * real (k + d) / real n)\<^sup>2 = x\<^sup>2 * (real (k + d) / real n)\<^sup>2"
        by (simp only: times_divide_eq_right [symmetric] power_mult_distrib)
      then have "- x\<^sup>2 * ?c = - x\<^sup>2 + - (x * real (k + d) / real n)\<^sup>2"
        by (simp only: distrib_left mult_1_right mult_minus_left minus_add_distrib)
      then have "exp (- x\<^sup>2 * ?c) = exp (- x\<^sup>2) * exp (- (x * real (k + d) / real n)\<^sup>2)"
        by (simp only: exp_add)
      moreover have "(- (2 * x) * ?c) * (1 / ?c / real n) = - 2 * (x / real n)"
        by (rule cancel_weight [OF c])
      ultimately show ?thesis
        by (simp only: mult.assoc) (simp only: mult_ac)
    qed
    ultimately show "DERIV (\<lambda>x. exp (- x\<^sup>2 * ?c) / ?c / real n) x :>
            - 2 * exp (- x\<^sup>2) * (x / real n * exp (- (x * real (k + d) / real n)\<^sup>2))"
      by (simp only:)
  qed
  then show ?thesis by (simp add: hsum_def [abs_def])
qed

lemma gauss_plus_hsum_deriv:
  "DERIV (\<lambda>x. (gauss_int x)\<^sup>2 + hsum n d x) x :>
     2 * exp (- x\<^sup>2) *
       (gauss_int x - (\<Sum>k<n. x / real n * exp (- (x * real (k + d) / real n)\<^sup>2)))"
proof -
  have "DERIV (\<lambda>x. (gauss_int x)\<^sup>2 + hsum n d x) x :>
          2 * gauss_int x * exp (- x\<^sup>2)
          + (\<Sum>k<n. - 2 * exp (- x\<^sup>2) * (x / real n * exp (- (x * real (k + d) / real n)\<^sup>2)))"
    by (rule derivative_eq_intros gauss_int_deriv hsum_deriv refl | simp)+
  moreover have "(\<Sum>k<n. - 2 * exp (- x\<^sup>2) * (x / real n * exp (- (x * real (k + d) / real n)\<^sup>2)))
     = - 2 * exp (- x\<^sup>2) * (\<Sum>k<n. x / real n * exp (- (x * real (k + d) / real n)\<^sup>2))"
    by (simp only: sum_distrib_left)
  ultimately show ?thesis
    by (simp add: algebra_simps)
qed

lemma hsum_nonneg: "0 \<le> hsum n d x"
  unfolding hsum_def by (intro sum_nonneg divide_nonneg_nonneg add_nonneg_nonneg) simp_all

lemma hsum_le_exp:
  assumes "0 < n"
  shows "hsum n d x \<le> exp (- x\<^sup>2)"
proof -
  have "hsum n d x \<le> (\<Sum>k<n. exp (- x\<^sup>2) / real n)"
    unfolding hsum_def
  proof (rule sum_mono)
    fix k
    define c where "c = 1 + (real (k + d) / real n)\<^sup>2"
    have c: "1 \<le> c" unfolding c_def by simp
    have "0 \<le> x\<^sup>2" by simp
    then have "x\<^sup>2 * 1 \<le> x\<^sup>2 * c" using c by (rule mult_left_mono [rotated])
    then have e: "exp (- x\<^sup>2 * c) \<le> exp (- x\<^sup>2)" by simp
    have "exp (- x\<^sup>2 * c) / c \<le> exp (- x\<^sup>2 * c) / 1"
      using c by (intro divide_left_mono) simp_all
    then have "exp (- x\<^sup>2 * c) / c \<le> exp (- x\<^sup>2 * c)" by simp
    then have "exp (- x\<^sup>2 * c) / c \<le> exp (- x\<^sup>2)" using e by (rule order_trans)
    then show "exp (- x\<^sup>2 * (1 + (real (k + d) / real n)\<^sup>2))
                 / (1 + (real (k + d) / real n)\<^sup>2) / real n \<le> exp (- x\<^sup>2) / real n"
      unfolding c_def by (rule divide_right_mono) simp
  qed
  also have "\<dots> = exp (- x\<^sup>2)" using assms by simp
  finally show ?thesis .
qed

lemma hsum_0: "hsum n d 0 = (\<Sum>k<n. 1 / real n * inverse (1 + (1 * real (k + d) / real n)\<^sup>2))"
  by (simp add: hsum_def divide_inverse mult.commute)

lemma left_right_sum:
  assumes "0 < n"
  shows "hsum n 0 0 = hsum n 1 0 + 1 / (2 * real n)"
proof -
  define f where "f k = 1 / real n * inverse (1 + (1 * real k / real n)\<^sup>2)" for k
  have "(\<Sum>k<n. f (Suc k) - f k) = f n - f 0"
    by (rule sum_lessThan_telescope)
  moreover have "f n = 1 / (2 * real n)" "f 0 = 1 / real n"
    using assms by (simp_all add: f_def)
  ultimately have "(\<Sum>k<n. f (Suc k)) - (\<Sum>k<n. f k) = 1 / (2 * real n) - 1 / real n"
    by (simp add: sum_subtractf)
  then have "(\<Sum>k<n. f k) = (\<Sum>k<n. f (Suc k)) + 1 / (2 * real n)"
    by (simp add: field_simps)
  then show ?thesis
    by (simp add: hsum_0 f_def)
qed

lemma gauss_int_square_upper_n:
  assumes x: "0 \<le> x" and n: "0 < n"
  shows "(gauss_int x)\<^sup>2 \<le> pi / 4 + 1 / (2 * real n)"
proof -
  have "(\<lambda>x. (gauss_int x)\<^sup>2 + hsum n 0 x) x \<le> (\<lambda>x. (gauss_int x)\<^sup>2 + hsum n 0 x) 0"
  proof (rule DERIV_nonpos_imp_nonincreasing [OF x])
    fix t :: real assume t: "0 \<le> t" "t \<le> x"
    have "gauss_int t - (\<Sum>k<n. t / real n * exp (- (t * real (k + 0) / real n)\<^sup>2)) \<le> 0"
      using gauss_int_le_left_sum [OF t(1) n] by simp
    then have "2 * exp (- t\<^sup>2) *
       (gauss_int t - (\<Sum>k<n. t / real n * exp (- (t * real (k + 0) / real n)\<^sup>2))) \<le> 0"
      by (intro mult_nonneg_nonpos) simp_all
    with gauss_plus_hsum_deriv [of n 0 t]
    show "\<exists>y. DERIV (\<lambda>x. (gauss_int x)\<^sup>2 + hsum n 0 x) t :> y \<and> y \<le> 0"
      by blast
  qed
  then have "(gauss_int x)\<^sup>2 + hsum n 0 x \<le> hsum n 0 0"
    by (simp add: gauss_int_0)
  also have "\<dots> = hsum n 1 0 + 1 / (2 * real n)" by (rule left_right_sum [OF n])
  also have "hsum n 1 0 \<le> pi / 4"
    using arctan_ge_right_sum [OF n] by (simp add: hsum_0)
  finally have "(gauss_int x)\<^sup>2 + hsum n 0 x \<le> pi / 4 + 1 / (2 * real n)" by simp
  with hsum_nonneg [of n 0 x] show ?thesis by linarith
qed

lemma gauss_int_square_lower_n:
  assumes x: "0 \<le> x" and n: "0 < n"
  shows "pi / 4 - 1 / (2 * real n) - exp (- x\<^sup>2) \<le> (gauss_int x)\<^sup>2"
proof -
  have "(\<lambda>x. (gauss_int x)\<^sup>2 + hsum n 1 x) 0 \<le> (\<lambda>x. (gauss_int x)\<^sup>2 + hsum n 1 x) x"
  proof (rule DERIV_nonneg_imp_nondecreasing [OF x])
    fix t :: real assume t: "0 \<le> t" "t \<le> x"
    have "0 \<le> gauss_int t - (\<Sum>k<n. t / real n * exp (- (t * real (k + 1) / real n)\<^sup>2))"
      using gauss_int_ge_right_sum [OF t(1) n] by simp
    then have "0 \<le> 2 * exp (- t\<^sup>2) *
       (gauss_int t - (\<Sum>k<n. t / real n * exp (- (t * real (k + 1) / real n)\<^sup>2)))"
      by (intro mult_nonneg_nonneg) simp_all
    with gauss_plus_hsum_deriv [of n 1 t]
    show "\<exists>y. DERIV (\<lambda>x. (gauss_int x)\<^sup>2 + hsum n 1 x) t :> y \<and> 0 \<le> y"
      by blast
  qed
  then have "hsum n 1 0 \<le> (gauss_int x)\<^sup>2 + hsum n 1 x"
    by (simp add: gauss_int_0)
  moreover have "hsum n 0 0 = hsum n 1 0 + 1 / (2 * real n)" by (rule left_right_sum [OF n])
  moreover have "pi / 4 \<le> hsum n 0 0"
    using arctan_le_left_sum [OF n] by (simp add: hsum_0)
  moreover note hsum_le_exp [OF n, of 1 x]
  ultimately show ?thesis by linarith
qed

lemma le_if_le_plus_inverse:
  fixes a b :: real
  assumes "\<And>n. 0 < n \<Longrightarrow> a \<le> b + 1 / (2 * real n)"
  shows "a \<le> b"
proof (rule ccontr)
  assume "\<not> a \<le> b"
  then have "0 < a - b" by simp
  then obtain n where n: "0 < n" "inverse (real n) < a - b"
    using ex_inverse_of_nat_less by blast
  have "1 / (2 * real n) \<le> inverse (real n)"
    using n(1) by (simp add: field_simps)
  with n(2) assms [OF n(1)] show False by linarith
qed

lemma gauss_int_square_upper:
  assumes "0 \<le> x"
  shows "(gauss_int x)\<^sup>2 \<le> pi / 4"
  by (rule le_if_le_plus_inverse) (rule gauss_int_square_upper_n [OF assms])

lemma gauss_int_square_lower:
  assumes "0 \<le> x"
  shows "pi / 4 - exp (- x\<^sup>2) \<le> (gauss_int x)\<^sup>2"
proof -
  have "pi / 4 - exp (- x\<^sup>2) \<le> (gauss_int x)\<^sup>2 + 1 / (2 * real n)" if "0 < n" for n
    using gauss_int_square_lower_n [OF assms that] by linarith
  then show ?thesis by (rule le_if_le_plus_inverse)
qed

subsection \<open>Bounds on the error function and the normal distribution\<close>

lemma gauss_int_minus: "gauss_int (- x) = - gauss_int x"
  by (simp add: gauss_int_def)

lemma erf_0: "erf 0 = 0"
  by (simp add: erf_def gauss_int_0)

lemma erf_minus: "erf (- x) = - erf x"
  by (simp add: erf_def gauss_int_minus)

lemma erf_deriv: "DERIV erf x :> 2 / sqrt pi * exp (- x\<^sup>2)"
  unfolding erf_def [abs_def]
  by (rule derivative_eq_intros gauss_int_deriv refl | simp)+

lemma erf_strict_mono:
  assumes "x < y"
  shows "erf x < erf y"
proof (rule DERIV_pos_imp_increasing [OF assms])
  fix t :: real
  have "0 < 2 / sqrt pi * exp (- t\<^sup>2)" by simp
  with erf_deriv [of t] show "\<exists>d. DERIV erf t :> d \<and> 0 < d" by blast
qed

lemma erf_mono: "x \<le> y \<Longrightarrow> erf x \<le> erf y"
  using erf_strict_mono [of x y] by (cases "x = y") simp_all

lemma erf_square:
  "(erf x)\<^sup>2 = 4 / pi * (gauss_int x)\<^sup>2"
  by (simp add: erf_def power_mult_distrib power_divide)

lemma erf_nonneg:
  assumes "0 \<le> x"
  shows "0 \<le> erf x"
  using erf_mono [OF assms] by (simp add: erf_0)

lemma erf_le_1_nonneg:
  assumes "0 \<le> x"
  shows "erf x \<le> 1"
proof -
  have "4 / pi * (gauss_int x)\<^sup>2 \<le> 4 / pi * (pi / 4)"
    by (intro mult_left_mono gauss_int_square_upper [OF assms]) simp
  then have "(erf x)\<^sup>2 \<le> 1\<^sup>2"
    by (simp add: erf_square)
  then show ?thesis
    by (rule power2_le_imp_le) simp
qed

lemma erf_less_1: "erf x < 1"
proof -
  have "erf x < erf (max x 0 + 1)"
    by (rule erf_strict_mono) simp
  also have "\<dots> \<le> 1"
    by (rule erf_le_1_nonneg) simp
  finally show ?thesis .
qed

lemma erf_greater_minus_1: "- 1 < erf x"
  using erf_less_1 [of "- x"] by (simp add: erf_minus)

lemma erf_tail:
  assumes "0 \<le> x"
  shows "1 - 4 / pi * exp (- x\<^sup>2) \<le> erf x"
proof -
  have "4 / pi * (pi / 4 - exp (- x\<^sup>2)) \<le> 4 / pi * (gauss_int x)\<^sup>2"
    by (intro mult_left_mono gauss_int_square_lower [OF assms]) simp
  then have "1 - 4 / pi * exp (- x\<^sup>2) \<le> (erf x)\<^sup>2"
    by (simp add: erf_square algebra_simps)
  also have "(erf x)\<^sup>2 \<le> erf x * 1"
    unfolding power2_eq_square
    by (intro mult_left_mono erf_le_1_nonneg erf_nonneg assms)
  finally show ?thesis by simp
qed

lemma norm_cdf_0: "norm_cdf 0 = 1 / 2"
  by (simp add: norm_cdf_def erf_0)

lemma norm_cdf_strict_mono:
  assumes "x < y"
  shows "norm_cdf x < norm_cdf y"
proof -
  have "x / sqrt 2 < y / sqrt 2"
    using assms by (simp add: divide_strict_right_mono)
  then show ?thesis
    unfolding norm_cdf_def using erf_strict_mono by simp
qed

lemma norm_cdf_mono: "x \<le> y \<Longrightarrow> norm_cdf x \<le> norm_cdf y"
  using norm_cdf_strict_mono [of x y] by (cases "x = y") simp_all

lemma norm_cdf_pos: "0 < norm_cdf z"
  using erf_greater_minus_1 [of "z / sqrt 2"] by (simp add: norm_cdf_def)

lemma norm_cdf_less_1: "norm_cdf z < 1"
  using erf_less_1 [of "z / sqrt 2"] by (simp add: norm_cdf_def)

lemma norm_cdf_tail:
  assumes "0 \<le> z"
  shows "1 - 2 / pi * exp (- z\<^sup>2 / 2) \<le> norm_cdf z"
proof -
  have "0 \<le> z / sqrt 2" using assms by simp
  from erf_tail [OF this] have "1 - 4 / pi * exp (- (z / sqrt 2)\<^sup>2) \<le> erf (z / sqrt 2)" .
  moreover have "(z / sqrt 2)\<^sup>2 = z\<^sup>2 / 2"
    by (simp add: power_divide)
  ultimately show ?thesis
    by (simp add: norm_cdf_def)
qed

lemma pi_ge_3: "3 \<le> pi"
proof -
  have "sin (pi / 6) \<le> pi / 6"
    by (rule sin_x_le_x) simp
  then show ?thesis by (simp add: sin_30)
qed

section \<open>The library cumulative function\<close>

lemma scipy_lognorm_cdf_pos:
  assumes "0 < x"
  shows "scipy_lognorm_cdf x sigma (exp mu) = norm_cdf ((ln x - mu) / sigma)"
  using assms by (simp add: scipy_lognorm_cdf_def)

lemma scipy_lognorm_cdf_nonpos:
  assumes "x \<le> 0"
  shows "scipy_lognorm_cdf x sigma (exp mu) = 0"
  using assms by (simp add: scipy_lognorm_cdf_def)

lemma scipy_lognorm_cdf_bounds:
  "0 \<le> scipy_lognorm_cdf x sigma (exp mu)" "scipy_lognorm_cdf x sigma (exp mu) < 1"
proof -
  show "0 \<le> scipy_lognorm_cdf x sigma (exp mu)"
  proof (cases "0 < x")
    case True
    then show ?thesis
      using norm_cdf_pos [of "(ln x - mu) / sigma"] by (simp add: scipy_lognorm_cdf_pos)
  next
    case False
    then show ?thesis by (simp add: scipy_lognorm_cdf_nonpos)
  qed
  show "scipy_lognorm_cdf x sigma (exp mu) < 1"
  proof (cases "0 < x")
    case True
    then show ?thesis
      using norm_cdf_less_1 [of "(ln x - mu) / sigma"] by (simp add: scipy_lognorm_cdf_pos)
  next
    case False
    then show ?thesis by (simp add: scipy_lognorm_cdf_nonpos)
  qed
qed

lemma scipy_lognorm_cdf_strict_mono:
  assumes "0 \<le> x1" "x1 < x2"
  shows "scipy_lognorm_cdf x1 sigma (exp mu) < scipy_lognorm_cdf x2 sigma (exp mu)"
proof (cases "x1 = 0")
  case True
  then show ?thesis
    using assms norm_cdf_pos [of "(ln x2 - mu) / sigma"]
    by (simp add: scipy_lognorm_cdf_pos scipy_lognorm_cdf_nonpos)
next
  case False
  then have p: "0 < x1" "0 < x2" using assms by simp_all
  then have "ln x1 < ln x2" using assms(2) by simp
  then have "(ln x1 - mu) / sigma < (ln x2 - mu) / sigma"
    using sigma_pos by (simp add: divide_strict_right_mono)
  then show ?thesis
    using p by (simp add: scipy_lognorm_cdf_pos norm_cdf_strict_mono)
qed

lemma scipy_lognorm_cdf_mono:
  assumes "x1 \<le> x2"
  shows "scipy_lognorm_cdf x1 sigma (exp mu) \<le> scipy_lognorm_cdf x2 sigma (exp mu)"
proof (cases "0 \<le> x1 \<and> x1 < x2")
  case True
  then show ?thesis using scipy_lognorm_cdf_strict_mono [of x1 x2] by simp
next
  case False
  then consider "x1 = x2" | "x1 < 0" using assms by fastforce
  then show ?thesis
  proof cases
    case 1
    then show ?thesis by simp
  next
    case 2
    then show ?thesis
      using scipy_lognorm_cdf_bounds(1) [of x2] by (simp add: scipy_lognorm_cdf_nonpos)
  qed
qed

lemma scipy_lognorm_cdf_median: "scipy_lognorm_cdf (exp mu) sigma (exp mu) = 1 / 2"
  by (simp add: scipy_lognorm_cdf_pos norm_cdf_0)

lemma prob_between_range:
  assumes "low \<le> high"
  shows "0 \<le> prob_between low high" "prob_between low high \<le> 1"
    "0 \<le> percentage low high" "percentage low high \<le> 100"
proof -
  show a: "0 \<le> prob_between low high"
    using scipy_lognorm_cdf_mono [OF assms] by (simp add: prob_between_def)
  show b: "prob_between low high \<le> 1"
    using scipy_lognorm_cdf_bounds(1) [of low] scipy_lognorm_cdf_bounds(2) [of high]
    by (simp add: prob_between_def)
  show "0 \<le> percentage low high" using a by (simp add: percentage_def)
  show "percentage low high \<le> 100" using b by (simp add: percentage_def)
qed

section \<open>Bounds on the exponential\<close>

lemma exp_lower_taylor:
  fixes x :: real
  assumes "0 \<le> x"
  shows "(\<Sum>k<n. x ^ k / fact k) \<le> exp x"
proof -
  have "(\<Sum>k<n. x ^ k /\<^sub>R fact k) \<le> (\<Sum>k. x ^ k /\<^sub>R fact k)"
    by (rule sum_le_suminf [OF summable_exp_generic]) (use assms in simp_all)
  then show ?thesis
    by (simp add: exp_def divide_inverse mult.commute)
qed

lemma exp_1_ge: "27 / 10 \<le> exp (1::real)"
proof -
  have "(\<Sum>k<5. (1::real) ^ k / fact k) \<le> exp 1"
    by (rule exp_lower_taylor) simp
  then show ?thesis
    by (simp add: eval_nat_numeral lessThan_Suc fact_numeral)
qed

lemma exp_7_ge: "1000 \<le> exp (7::real)"
proof -
  have "(1000::real) \<le> (27 / 10) ^ 7"
    by (simp add: power_divide)
  also have "(27 / 10 :: real) ^ 7 \<le> exp 1 ^ 7"
    by (rule power_mono [OF exp_1_ge]) simp
  also have "\<dots> = exp (7::real)"
    using exp_of_nat_mult [of 7 "1::real"] by simp
  finally show ?thesis .
qed

lemma exp_upper_taylor:
  fixes x :: real
  assumes x: "0 \<le> x" and r: "x ^ n / fact n < 1"
    and u: "(\<Sum>k<n. x ^ k / fact k) \<le> u * (1 - x ^ n / fact n)"
  shows "exp x \<le> u"
proof -
  obtain t where t: "\<bar>t\<bar> \<le> \<bar>x\<bar>"
    and e: "exp x = (\<Sum>m<n. x ^ m / fact m) + exp t / fact n * x ^ n"
    using Maclaurin_exp_le [of x n] by blast
  have "exp t \<le> exp x" using t x by simp
  then have "exp t / fact n * x ^ n \<le> exp x / fact n * x ^ n"
    using x by (intro mult_right_mono divide_right_mono) simp_all
  with e have "exp x \<le> (\<Sum>m<n. x ^ m / fact m) + exp x / fact n * x ^ n" by linarith
  then have "exp x * (1 - x ^ n / fact n) \<le> (\<Sum>m<n. x ^ m / fact m)"
    by (simp add: algebra_simps)
  with u have "exp x * (1 - x ^ n / fact n) \<le> u * (1 - x ^ n / fact n)" by linarith
  then show ?thesis using r by simp
qed

lemma exp_lower_power:
  fixes x :: real
  assumes "0 \<le> x" "0 \<le> l" "l \<le> (\<Sum>k<n. x ^ k / fact k)" "L \<le> l ^ m"
  shows "L \<le> exp (real m * x)"
proof -
  have "l \<le> exp x" using assms(3) exp_lower_taylor [OF assms(1), of n] by linarith
  then have "l ^ m \<le> exp x ^ m" using assms(2) by (rule power_mono)
  then show ?thesis using assms(4) by (simp add: exp_of_nat_mult)
qed

lemma exp_upper_power:
  fixes x :: real
  assumes "0 \<le> x" "x ^ n / fact n < 1"
    "(\<Sum>k<n. x ^ k / fact k) \<le> u * (1 - x ^ n / fact n)" "u ^ m \<le> U"
  shows "exp (real m * x) \<le> U"
proof -
  have "exp x \<le> u" using assms(1-3) by (rule exp_upper_taylor)
  then have "exp x ^ m \<le> u ^ m" by (intro power_mono) simp_all
  then show ?thesis using assms(4) by (simp add: exp_of_nat_mult)
qed

lemma exp_11495: "exp (11.495 :: real) \<le> 100000"
  using exp_upper_power [of "1.436875" 12 "4.2076" 8 100000]
  by (simp add: eval_nat_numeral lessThan_Suc fact_numeral)

lemma exp_115425: "100000 \<le> exp (11.5425 :: real)"
  using exp_lower_power [of "1.4428125" "4.2325" 12 100000 8]
  by (simp add: eval_nat_numeral lessThan_Suc fact_numeral)

lemma exp_125875: "exp (12.5875 :: real) \<le> 300000"
  using exp_upper_power [of "1.5734375" 12 "4.8235" 8 300000]
  by (simp add: eval_nat_numeral lessThan_Suc fact_numeral)

lemma exp_12635: "300000 \<le> exp (12.635 :: real)"
  using exp_lower_power [of "1.579375" "4.8519" 12 300000 8]
  by (simp add: eval_nat_numeral lessThan_Suc fact_numeral)

lemma exp_154: "4.66 \<le> exp (1.54 :: real)"
  using exp_lower_power [of "1.54" "4.66" 10 "4.66" 1]
  by (simp add: eval_nat_numeral lessThan_Suc fact_numeral)

lemma exp_066125: "exp (0.66125 :: real) \<le> 1.94"
  using exp_upper_power [of "0.66125" 8 "1.94" 1 "1.94"]
  by (simp add: eval_nat_numeral lessThan_Suc fact_numeral)

lemma exp_32545: "exp (3.2545 :: real) \<le> 26"
  using exp_upper_power [of "1.62725" 12 "5.0985" 2 26]
  by (simp add: eval_nat_numeral lessThan_Suc fact_numeral)

lemma exp_253125: "12.5 \<le> exp (2.53125 :: real)"
  using exp_lower_power [of "1.265625" "3.5445" 10 "12.5" 2]
  by (simp add: eval_nat_numeral lessThan_Suc fact_numeral)


section \<open>The hand-rolled cumulative function\<close>

lemma cdf_formula_0: "cdf_formula 0 = (1 + sqrt (2 / pi)) / 2"
  by (simp add: cdf_formula_def)

lemma lognorm_cdf_at_scale: "lognorm_cdf scale sigma scale = Fin ((1 + sqrt (2 / pi)) / 2)"
  using scale_pos sigma_pos by (simp add: lognorm_cdf_pos cdf_formula_0)

lemma lognorm_cdf_finite:
  assumes "0 \<le> x"
  shows "\<exists>v. lognorm_cdf x sigma scale = Fin v"
proof (cases "x = 0")
  case True
  then show ?thesis using scale_pos sigma_pos by (simp add: lognorm_cdf_zero)
next
  case False
  then have "0 < x" using assms by simp
  then show ?thesis using scale_pos sigma_pos by (simp add: lognorm_cdf_pos)
qed

section \<open>Tails and limits\<close>

lemma sqrt_2_ge: "7 / 5 \<le> sqrt 2"
  by (rule real_le_rsqrt) (simp add: power_divide)

lemma exp_minus_7_le: "exp (- 7 :: real) \<le> 1 / 1000"
proof -
  have "inverse (exp (7::real)) \<le> inverse 1000"
    by (rule le_imp_inverse_le [OF exp_7_ge]) simp
  then show ?thesis by (simp add: exp_minus)
qed

lemma tanh_7_half_ge: "998 / 1000 \<le> tanh (7 / 2 :: real)"
proof -
  define e :: real where "e = exp (- 7)"
  have e: "0 < e" "e \<le> 1 / 1000"
    using exp_minus_7_le by (simp_all add: e_def)
  have "tanh (7 / 2 :: real) = (1 - e) / (1 + e)"
    by (simp add: tanh_real_altdef e_def)
  moreover have "998 / 1000 * (1 + e) \<le> 1 - e"
    using e by simp
  then have "998 / 1000 \<le> (1 - e) / (1 + e)"
    using e by (simp only: pos_le_divide_eq add_pos_pos zero_less_one)
  ultimately show ?thesis by simp
qed

lemma cdf_formula_tail:
  assumes "5 \<le> z"
  shows "999 / 1000 < cdf_formula z"
proof -
  have "7 / 5 * 5 \<le> sqrt 2 * z"
    by (rule mult_mono [OF sqrt_2_ge assms]) simp_all
  then have "7 / 2 \<le> sqrt 2 * z / 2" by simp
  then have "tanh (7 / 2) \<le> tanh (sqrt 2 * z / 2)" by simp
  with tanh_7_half_ge have t: "998 / 1000 \<le> tanh (sqrt 2 * z / 2)" by linarith
  define g where "g = sqrt (2 / pi) * exp (- z\<^sup>2 / 2)"
  have g: "0 < g" by (simp add: g_def)
  have "cdf_formula z = (1 + tanh (sqrt 2 * z / 2) + g) / 2"
    by (simp add: cdf_formula_def g_def)
  with t g show ?thesis by simp
qed

lemma norm_cdf_5: "999 / 1000 < norm_cdf 5"
proof -
  have "exp (- (25 / 2) :: real) \<le> exp (- 7)" by simp
  with exp_minus_7_le have e: "exp (- (25 / 2) :: real) \<le> 1 / 1000" by linarith
  define t where "t = 2 / pi * exp (- (25 / 2))"
  have "2 / pi \<le> 2 / 3"
    using pi_ge_3 by (intro divide_left_mono) simp_all
  then have "2 / pi * exp (- (25 / 2)) \<le> 2 / 3 * (1 / 1000)"
    using e by (intro mult_mono) simp_all
  then have t: "t \<le> 2 / 3000" by (simp add: t_def)
  have "1 - 2 / pi * exp (- 5\<^sup>2 / 2) \<le> norm_cdf 5"
    by (rule norm_cdf_tail) simp
  then have "1 - t \<le> norm_cdf 5" by (simp add: t_def)
  with t show ?thesis by linarith
qed

lemma z_big: "5 \<le> (ln (10 * exp m * exp (5 * s)) - m) / s" if "0 < s" for m s :: real
proof -
  have "ln (10 * exp m * exp (5 * s)) = ln 10 + m + 5 * s"
    by (simp add: ln_mult)
  moreover have "0 \<le> ln (10::real)" by simp
  ultimately have "5 * s \<le> ln (10 * exp m * exp (5 * s)) - m" by linarith
  then show ?thesis using that by (simp add: pos_le_divide_eq)
qed

lemma lognorm_cdf_big:
  "\<exists>v. lognorm_cdf (10 * scale * exp (5 * sigma)) sigma scale = Fin v \<and> 999 / 1000 < v"
proof -
  have "0 < 10 * scale * exp (5 * sigma)" using scale_pos by simp
  then have "lognorm_cdf (10 * scale * exp (5 * sigma)) sigma scale
       = Fin (cdf_formula ((ln (10 * scale * exp (5 * sigma)) - ln scale) / sigma))"
    using scale_pos sigma_pos by (simp add: lognorm_cdf_pos)
  moreover have "5 \<le> (ln (10 * scale * exp (5 * sigma)) - ln scale) / sigma"
    using z_big [OF sigma_pos, of mu] by (simp add: scale_def)
  ultimately show ?thesis using cdf_formula_tail by simp
qed

lemma scipy_lognorm_cdf_big:
  "999 / 1000 < scipy_lognorm_cdf (10 * exp mu * exp (5 * sigma)) sigma (exp mu)"
proof -
  have "norm_cdf 5 \<le> norm_cdf ((ln (10 * exp mu * exp (5 * sigma)) - mu) / sigma)"
    by (rule norm_cdf_mono [OF z_big [OF sigma_pos]])
  with norm_cdf_5 show ?thesis
    by (simp add: scipy_lognorm_cdf_pos)
qed

lemma z_at_top:
  fixes m s :: real
  assumes "0 < s"
  shows "LIM x at_top. (ln x - m) / s :> at_top"
proof -
  have a: "LIM x at_top. - m + ln x :> at_top"
    by (rule filterlim_tendsto_add_at_top [OF tendsto_const ln_at_top])
  have "LIM x at_top. (- m + ln x) * (1 / s) :> at_top"
    by (rule filterlim_at_top_mult_tendsto_pos [OF tendsto_const _ a]) (use assms in simp)
  moreover have "(\<lambda>x. (- m + ln x) * (1 / s)) = (\<lambda>x. (ln x - m) / s)"
    by (simp add: field_simps)
  ultimately show ?thesis by (simp only:)
qed

lemma gauss_tail_tendsto: "((\<lambda>z::real. exp (- z\<^sup>2 / 2)) \<longlongrightarrow> 0) at_top"
proof -
  have a: "LIM z at_top. (z::real)\<^sup>2 :> at_top"
    by (rule filterlim_pow_at_top [OF _ filterlim_ident]) simp
  have "LIM z at_top. (z::real)\<^sup>2 * (1 / 2) :> at_top"
    by (rule filterlim_at_top_mult_tendsto_pos [OF tendsto_const _ a]) simp
  then have "LIM z at_top. - ((z::real)\<^sup>2 * (1 / 2)) :> at_bot"
    by (simp add: filterlim_uminus_at_top [symmetric])
  then have "LIM z at_top. - (z::real)\<^sup>2 / 2 :> at_bot" by simp
  then show ?thesis by (rule filterlim_compose [OF exp_at_bot])
qed

lemma cdf_formula_tendsto: "(cdf_formula \<longlongrightarrow> 1) at_top"
proof -
  have "LIM z at_top. (z::real) * (sqrt 2 / 2) :> at_top"
    by (rule filterlim_at_top_mult_tendsto_pos [OF tendsto_const _ filterlim_ident]) simp
  then have "LIM z at_top. sqrt 2 * (z::real) / 2 :> at_top" by (simp add: mult.commute)
  then have t: "((\<lambda>z. tanh (sqrt 2 * z / 2)) \<longlongrightarrow> (1::real)) at_top"
    by (rule filterlim_compose [OF tanh_real_at_top])
  have "((\<lambda>z. 0.5 * (1 + tanh (sqrt 2 * z / 2) + sqrt (2 / pi) * exp (- z\<^sup>2 / 2)))
           \<longlongrightarrow> 0.5 * (1 + 1 + sqrt (2 / pi) * 0)) at_top"
    by (intro tendsto_intros t gauss_tail_tendsto)
  then show ?thesis by (simp add: cdf_formula_def [abs_def])
qed

lemma norm_cdf_tendsto: "(norm_cdf \<longlongrightarrow> 1) at_top"
proof (rule real_tendsto_sandwich)
  show "eventually (\<lambda>z. 1 - 2 / pi * exp (- z\<^sup>2 / 2) \<le> norm_cdf z) at_top"
    using eventually_ge_at_top [of 0] by (rule eventually_mono) (rule norm_cdf_tail)
  show "eventually (\<lambda>z. norm_cdf z \<le> 1) at_top"
    using norm_cdf_less_1 by (simp add: less_imp_le)
  have "((\<lambda>z. 1 - 2 / pi * exp (- z\<^sup>2 / 2)) \<longlongrightarrow> 1 - 2 / pi * 0) at_top"
    by (intro tendsto_intros gauss_tail_tendsto)
  then show "((\<lambda>z. 1 - 2 / pi * exp (- z\<^sup>2 / 2)) \<longlongrightarrow> 1) at_top" by simp
  show "((\<lambda>z. 1::real) \<longlongrightarrow> 1) at_top" by (rule tendsto_const)
qed

lemma lognorm_cdf_eventually:
  assumes "0 < e"
  shows "eventually (\<lambda>x. \<exists>v. lognorm_cdf x sigma scale = Fin v \<and> \<bar>v - 1\<bar> < e) at_top"
proof -
  have "((\<lambda>x. cdf_formula ((ln x - ln scale) / sigma)) \<longlongrightarrow> 1) at_top"
    by (rule filterlim_compose [OF cdf_formula_tendsto z_at_top [OF sigma_pos]])
  then have "eventually (\<lambda>x. dist (cdf_formula ((ln x - ln scale) / sigma)) 1 < e) at_top"
    using assms by (rule tendstoD)
  then show ?thesis
    using eventually_gt_at_top [of 0]
  proof (rule eventually_elim2)
    fix x :: real
    assume "dist (cdf_formula ((ln x - ln scale) / sigma)) 1 < e" "0 < x"
    then show "\<exists>v. lognorm_cdf x sigma scale = Fin v \<and> \<bar>v - 1\<bar> < e"
      using scale_pos sigma_pos by (simp add: lognorm_cdf_pos dist_real_def)
  qed
qed

lemma scipy_lognorm_cdf_tendsto:
  "((\<lambda>x. scipy_lognorm_cdf x sigma (exp mu)) \<longlongrightarrow> 1) at_top"
proof -
  have "((\<lambda>x. norm_cdf ((ln x - mu) / sigma)) \<longlongrightarrow> 1) at_top"
    by (rule filterlim_compose [OF norm_cdf_tendsto z_at_top [OF sigma_pos]])
  moreover have "eventually (\<lambda>x. norm_cdf ((ln x - mu) / sigma) = scipy_lognorm_cdf x sigma (exp mu)) at_top"
    using eventually_gt_at_top [of 0] by (rule eventually_mono) (simp add: scipy_lognorm_cdf_pos)
  ultimately show ?thesis
    by (rule Lim_transform_eventually)
qed

section \<open>The hand-rolled cumulative function at the slider values\<close>

lemma tanh_exp: "tanh u = (exp (2 * u) - 1) / (exp (2 * u) + 1)" for u :: real
proof -
  have "tanh u = (1 - exp (- 2 * u)) / (1 + exp (- 2 * u))"
    by (rule tanh_real_altdef)
  also have "\<dots> = (exp (2 * u) * (1 - exp (- 2 * u))) / (exp (2 * u) * (1 + exp (- 2 * u)))"
    by simp
  also have "exp (2 * u) * (1 - exp (- 2 * u)) = exp (2 * u) - 1"
    by (simp add: algebra_simps exp_add [symmetric])
  also have "exp (2 * u) * (1 + exp (- 2 * u)) = exp (2 * u) + 1"
    by (simp add: algebra_simps exp_add [symmetric])
  finally show ?thesis .
qed

lemma ratio_mono:
  fixes a b :: real
  assumes "0 < a" "a \<le> b"
  shows "(a - 1) / (a + 1) \<le> (b - 1) / (b + 1)"
  using assms by (simp add: field_simps)

lemma tanh_lower:
  fixes u :: real
  assumes "0 < E" "E \<le> exp (2 * u)"
  shows "(E - 1) / (E + 1) \<le> tanh u"
  using ratio_mono [OF assms] by (simp add: tanh_exp [of u])

lemma tanh_upper:
  fixes u :: real
  assumes "exp (2 * u) \<le> E"
  shows "tanh u \<le> (E - 1) / (E + 1)"
  using ratio_mono [OF _ assms] by (simp add: tanh_exp [of u])

lemma sqrt_2_le: "sqrt 2 \<le> 1.415"
  by (rule real_le_lsqrt) (simp_all add: power2_eq_square)

lemma sqrt_2_over_pi_ge: "0.7 \<le> sqrt (2 / pi)"
proof (rule real_le_rsqrt)
  have "(0.7 :: real)\<^sup>2 \<le> 2 / 4"
    by (simp add: power2_eq_square)
  also have "2 / 4 \<le> 2 / pi"
    using pi_less_4 by (intro divide_left_mono) simp_all
  finally show "(0.7 :: real)\<^sup>2 \<le> 2 / pi" .
qed

lemma sqrt_2_over_pi_le: "sqrt (2 / pi) \<le> 0.8165"
proof (rule real_le_lsqrt)
  have "2 / pi \<le> 2 / 3"
    using pi_ge_3 by (intro divide_left_mono) simp_all
  also have "(2 / 3 :: real) \<le> 0.8165\<^sup>2"
    by (simp add: power2_eq_square)
  finally show "2 / pi \<le> (0.8165 :: real)\<^sup>2" .
qed simp

lemma cdf_formula_above_1:
  assumes "1.1 \<le> z" "z \<le> 1.15"
  shows "1 < cdf_formula z"
proof -
  define t where "t = tanh (sqrt 2 * z / 2)"
  define g where "g = exp (- z\<^sup>2 / 2)"
  define c where "c = sqrt (2 / pi)"
  have "7 / 5 * 1.1 \<le> sqrt 2 * z"
    using sqrt_2_ge assms(1) by (intro mult_mono) simp_all
  then have "exp (1.54 :: real) \<le> exp (2 * (sqrt 2 * z / 2))" by simp
  with exp_154 have "4.66 \<le> exp (2 * (sqrt 2 * z / 2))" by linarith
  then have "(4.66 - 1) / (4.66 + 1) \<le> t"
    unfolding t_def by (intro tanh_lower) simp_all
  then have t: "366 / 566 \<le> t" by simp
  have "z\<^sup>2 \<le> 1.15\<^sup>2"
    using assms by (intro power_mono) simp_all
  then have "z\<^sup>2 / 2 \<le> 0.66125" by (simp add: power2_eq_square)
  then have "exp (z\<^sup>2 / 2) \<le> exp (0.66125 :: real)" by simp
  with exp_066125 have "exp (z\<^sup>2 / 2) \<le> 1.94" by linarith
  then have "inverse 1.94 \<le> inverse (exp (z\<^sup>2 / 2))"
    by (intro le_imp_inverse_le) simp_all
  moreover have gi: "g = inverse (exp (z\<^sup>2 / 2))"
    by (simp add: g_def exp_minus)
  ultimately have g: "100 / 194 \<le> g"
    by simp
  have c: "7 / 10 \<le> c" using sqrt_2_over_pi_ge by (simp add: c_def)
  have "7 / 10 * (100 / 194) \<le> c * g"
    using c g by (intro mult_mono) simp_all
  with t have "1 < t + c * g" by simp
  moreover have "cdf_formula z = (1 + t + c * g) / 2"
    by (simp add: cdf_formula_def t_def g_def c_def)
  ultimately show ?thesis by simp
qed

lemma cdf_formula_below_1:
  assumes "2.25 \<le> z" "z \<le> 2.3"
  shows "cdf_formula z < 1"
proof -
  define t where "t = tanh (sqrt 2 * z / 2)"
  define g where "g = exp (- z\<^sup>2 / 2)"
  define c where "c = sqrt (2 / pi)"
  have "sqrt 2 * z \<le> 1.415 * 2.3"
    using sqrt_2_le assms by (intro mult_mono) simp_all
  then have "exp (2 * (sqrt 2 * z / 2)) \<le> exp (3.2545 :: real)" by simp
  with exp_32545 have "exp (2 * (sqrt 2 * z / 2)) \<le> 26" by linarith
  then have "t \<le> (26 - 1) / (26 + 1)"
    unfolding t_def by (rule tanh_upper)
  then have t: "t \<le> 25 / 27" by simp
  have "2.25\<^sup>2 \<le> z\<^sup>2"
    using assms by (intro power_mono) simp_all
  then have "2.53125 \<le> z\<^sup>2 / 2" by (simp add: power2_eq_square)
  then have "exp (2.53125 :: real) \<le> exp (z\<^sup>2 / 2)" by simp
  with exp_253125 have "12.5 \<le> exp (z\<^sup>2 / 2)" by linarith
  then have "inverse (exp (z\<^sup>2 / 2)) \<le> inverse 12.5"
    by (intro le_imp_inverse_le) simp_all
  moreover have gi: "g = inverse (exp (z\<^sup>2 / 2))"
    by (simp add: g_def exp_minus)
  ultimately have g: "g \<le> 2 / 25" "0 \<le> g"
    by simp_all
  have c: "c \<le> 0.8165" "0 \<le> c" using sqrt_2_over_pi_le by (simp_all add: c_def)
  have "c * g \<le> 0.8165 * (2 / 25)"
    using c g by (intro mult_mono) simp_all
  with t have "t + c * g < 1" by simp
  moreover have "cdf_formula z = (1 + t + c * g) / 2"
    by (simp add: cdf_formula_def t_def g_def c_def)
  ultimately show ?thesis by simp
qed

lemma z_bounds:
  fixes x lo hi :: real
  assumes "0 < x" "exp (mu + sigma * lo) \<le> x" "x \<le> exp (mu + sigma * hi)"
  shows "lo \<le> (ln x - ln scale) / sigma" "(ln x - ln scale) / sigma \<le> hi"
proof -
  have "mu + sigma * lo \<le> ln x"
    using assms(1,2) by (simp add: ln_ge_iff)
  then show "lo \<le> (ln x - ln scale) / sigma"
    using sigma_pos by (simp add: scale_def pos_le_divide_eq algebra_simps)
  have "ln x \<le> ln (exp (mu + sigma * hi))"
    using assms(1,3) by (subst ln_le_cancel_iff) simp_all
  then have "ln x \<le> mu + sigma * hi" by simp
  then show "(ln x - ln scale) / sigma \<le> hi"
    using sigma_pos by (simp add: scale_def pos_divide_le_eq algebra_simps)
qed

lemma lognorm_cdf_100000:
  "\<exists>v. lognorm_cdf 100000 sigma scale = Fin v \<and> 1 < v"
proof -
  have "1.1 \<le> (ln 100000 - ln scale) / sigma" "(ln 100000 - ln scale) / sigma \<le> 1.15"
    using z_bounds [of 100000 "1.1" "1.15"] exp_11495 exp_115425
    by (simp_all add: mu_def sigma_def)
  then have "1 < cdf_formula ((ln 100000 - ln scale) / sigma)"
    by (rule cdf_formula_above_1)
  then show ?thesis
    using scale_pos sigma_pos by (simp add: lognorm_cdf_pos)
qed

lemma lognorm_cdf_300000:
  "\<exists>v. lognorm_cdf 300000 sigma scale = Fin v \<and> v < 1"
proof -
  have "2.25 \<le> (ln 300000 - ln scale) / sigma" "(ln 300000 - ln scale) / sigma \<le> 2.3"
    using z_bounds [of 300000 "2.25" "2.3"] exp_125875 exp_12635
    by (simp_all add: mu_def sigma_def)
  then have "cdf_formula ((ln 300000 - ln scale) / sigma) < 1"
    by (rule cdf_formula_below_1)
  then show ?thesis
    using scale_pos sigma_pos by (simp add: lognorm_cdf_pos)
qed

section \<open>The display grids and the sliders\<close>

lemma linspace_length: "length (linspace a b n) = n"
  by (simp add: linspace_def)

lemma linspace_nth:
  assumes "i < n"
  shows "linspace a b n ! i = a + real i * ((b - a) / real (n - 1))"
  using assms by (simp add: linspace_def)

lemma linspace_set:
  "x \<in> set (linspace a b n) \<longleftrightarrow> (\<exists>i<n. x = a + real i * ((b - a) / real (n - 1)))"
  by (auto simp: linspace_def)

lemma linspace_tl_set:
  "x \<in> set (tl (linspace a b n))
     \<longleftrightarrow> (\<exists>i. 1 \<le> i \<and> i < n \<and> x = a + real i * ((b - a) / real (n - 1)))"
proof -
  have "tl (linspace a b n) = map (\<lambda>i. a + real i * ((b - a) / real (n - 1))) [Suc 0..<n]"
    by (simp add: linspace_def map_tl [symmetric])
  then show ?thesis by auto
qed

lemma income_range_App2_pos:
  assumes "x \<in> set income_range_App2"
  shows "0 < x"
proof -
  obtain i :: nat where "x = 1 + real i * ((300000 - 1) / real (1000 - 1 :: nat))"
    using assms unfolding income_range_App2_def linspace_set by blast
  moreover have "0 \<le> real i * ((300000 - 1) / real (1000 - 1 :: nat))" by simp
  ultimately show ?thesis by linarith
qed

lemma income_range_app_tl_pos:
  assumes "x \<in> set (tl income_range_app)"
  shows "0 < x"
proof -
  obtain i :: nat where "1 \<le> i" "x = 0 + real i * ((300000 - 0) / real (1000 - 1 :: nat))"
    using assms unfolding income_range_app_def linspace_tl_set by blast
  then show ?thesis by simp
qed

lemma income_range_app_hd: "income_range_app ! 0 = 0"
  unfolding income_range_app_def by (subst linspace_nth) simp_all

lemma pdf_values_hd: "pdf_values ! 0 = scipy_lognorm_pdf 0 sigma (exp mu)"
proof -
  have "0 < length income_range_app"
    unfolding income_range_app_def linspace_length by simp
  then have "pdf_values ! 0 = scipy_lognorm_pdf (income_range_app ! 0) sigma (exp mu)"
    unfolding pdf_values_def by (rule nth_map)
  then show ?thesis by (simp only: income_range_app_hd)
qed

lemma scipy_lognorm_pdf_0: "scipy_lognorm_pdf 0 s scl = 0"
  by (simp add: scipy_lognorm_pdf_def)


section \<open>Monotonicity and range of the cumulative function\<close>

text \<open>
  C1. The cumulative function is to be non-decreasing in both scripts. The library-based one
  is. The hand-rolled \<open>lognorm_cdf\<close> of App2.py is not: at the slider values 100000 and
  300000 it returns a value above 1 and then a value below 1.
\<close>

theorem cumulative_not_monotone_App2:
  "(100000::real) < 300000
     \<and> (\<exists>v1 v2. lognorm_cdf 100000 sigma scale = Fin v1
            \<and> lognorm_cdf 300000 sigma scale = Fin v2 \<and> v2 < 1 \<and> 1 < v1 \<and> v2 < v1)"
  using lognorm_cdf_100000 lognorm_cdf_300000 by auto

text \<open>
  C2. For \<open>low \<le> high\<close> the range probability is to lie in \<open>[0, 1]\<close> and the
  percentage in \<open>[0, 100]\<close>. The library-based script meets this. In App2.py the slider
  values 0 and 100000 give a probability above 1 and a percentage above 100, and the slider
  values 100000 and 300000 give a negative probability.
\<close>

theorem range_probability_out_of_bounds_App2:
  "(\<exists>v. prob 0 100000 = Fin v \<and> 1 < v)
     \<and> (\<exists>p. percent 0 100000 = Fin p \<and> 100 < p)
     \<and> (\<exists>v. prob 100000 300000 = Fin v \<and> v < 0)"
proof -
  obtain v1 where v1: "lognorm_cdf 100000 sigma scale = Fin v1" "1 < v1"
    using lognorm_cdf_100000 by blast
  obtain v2 where v2: "lognorm_cdf 300000 sigma scale = Fin v2" "v2 < 1"
    using lognorm_cdf_300000 by blast
  have z: "lognorm_cdf 0 sigma scale = Fin 0"
    using scale_pos sigma_pos by (rule lognorm_cdf_zero)
  have "prob 0 100000 = Fin v1" using v1 z by (simp add: prob_def np_sub_def)
  moreover have "percent 0 100000 = Fin (v1 * 100)"
    using v1 z by (simp add: percent_def prob_def np_sub_def)
  moreover have "prob 100000 300000 = Fin (v2 - v1)"
    using v1 v2 by (simp add: prob_def np_sub_def)
  ultimately show ?thesis using v1 v2 by simp
qed

section \<open>Median\<close>

text \<open>
  C3. The scale \<open>exp mu\<close> is the median: the cumulative function at \<open>x = exp mu\<close>
  is one half. This holds of the library-based script. The hand-rolled \<open>lognorm_cdf\<close>
  of App2.py returns \<open>(1 + sqrt (2 / pi)) / 2\<close> there, which is above one half.
\<close>

theorem median_App2:
  "lognorm_cdf (exp mu) sigma scale = Fin ((1 + sqrt (2 / pi)) / 2)
     \<and> 1 / 2 < (1 + sqrt (2 / pi)) / 2
     \<and> scipy_lognorm_cdf (exp mu) sigma (exp mu) = 1 / 2"
proof -
  have "lognorm_cdf (exp mu) sigma scale = Fin ((1 + sqrt (2 / pi)) / 2)"
    using lognorm_cdf_at_scale by (simp add: scale_def)
  moreover have "0 < sqrt (2 / pi)" by simp
  ultimately show ?thesis
    by (simp add: scipy_lognorm_cdf_median)
qed

section \<open>Inverted ranges\<close>




section \<open>Density\<close>



section \<open>Display grids\<close>

text \<open>
  C6, as it stands: \<open>x = 0\<close> is never passed to the density, because every display grid
  is strictly positive or the caller skips a leading zero sample. It fails on app.py: the
  first sample of its grid is 0, and the density series has one value per sample, the first
  of which is the library density evaluated at 0.
\<close>

theorem grid_zero_counterexample:
  "income_range_app ! 0 = 0
     \<and> length pdf_values = length income_range_app
     \<and> pdf_values ! 0 = scipy_lognorm_pdf 0 sigma (exp mu)"
proof -
  have "length pdf_values = length income_range_app"
    unfolding pdf_values_def by (rule length_map)
  with income_range_app_hd pdf_values_hd show ?thesis by blast
qed

text \<open>
  C6, amended. The grid of App2.py is strictly positive. The grid of app.py starts at 0, and
  every later sample is strictly positive; the sample 0 is passed to the library density,
  which returns 0 there by convention.
\<close>

theorem display_grids:
  "(\<forall>x\<in>set income_range_App2. 0 < x)
     \<and> income_range_app ! 0 = 0
     \<and> (\<forall>x\<in>set (tl income_range_app). 0 < x)
     \<and> pdf_values ! 0 = scipy_lognorm_pdf 0 sigma (exp mu)
     \<and> scipy_lognorm_pdf 0 sigma (exp mu) = 0"
  using income_range_App2_pos income_range_app_tl_pos income_range_app_hd pdf_values_hd
    scipy_lognorm_pdf_0 [of sigma "exp mu"]
  by blast

theorem display_grids_witness:
  "income_range_App2 ! 0 \<in> set income_range_App2 \<and> 0 < income_range_App2 ! 0
     \<and> income_range_app ! 1 \<in> set (tl income_range_app) \<and> 0 < income_range_app ! 1
     \<and> income_range_app ! 0 = 0 \<and> scipy_lognorm_pdf 0 sigma (exp mu) = 0"
proof -
  have a: "income_range_App2 ! 0 \<in> set income_range_App2"
    by (rule nth_mem) (simp add: income_range_App2_def linspace_length)
  have l: "length income_range_app = 1000"
    by (simp add: income_range_app_def linspace_length)
  have "tl income_range_app ! 0 \<in> set (tl income_range_app)"
    by (rule nth_mem) (simp add: l)
  moreover have "tl income_range_app ! 0 = income_range_app ! Suc 0"
    by (rule nth_tl) (simp add: l)
  ultimately have b: "income_range_app ! 1 \<in> set (tl income_range_app)" by simp
  from a b display_grids show ?thesis by blast
qed

section \<open>Limits of the cumulative function\<close>

text \<open>
  C7. In both scripts the cumulative function is 0 at \<open>x = 0\<close>, exceeds 0.999 at
  \<open>10 * scale * exp (5 * sigma)\<close>, and tends to 1 as \<open>x\<close> grows without bound: for
  every \<open>e > 0\<close> it is eventually within \<open>e\<close> of 1.
\<close>

theorem cumulative_limits:
  assumes "0 < e"
  shows "lognorm_cdf 0 sigma scale = Fin 0
       \<and> scipy_lognorm_cdf 0 sigma (exp mu) = 0
       \<and> (\<exists>v. lognorm_cdf (10 * scale * exp (5 * sigma)) sigma scale = Fin v \<and> 0.999 < v)
       \<and> 0.999 < scipy_lognorm_cdf (10 * exp mu * exp (5 * sigma)) sigma (exp mu)
       \<and> eventually (\<lambda>x. \<exists>v. lognorm_cdf x sigma scale = Fin v \<and> \<bar>v - 1\<bar> < e) at_top
       \<and> eventually (\<lambda>x. \<bar>scipy_lognorm_cdf x sigma (exp mu) - 1\<bar> < e) at_top"
proof -
  have "lognorm_cdf 0 sigma scale = Fin 0"
    using scale_pos sigma_pos by (rule lognorm_cdf_zero)
  moreover have "scipy_lognorm_cdf 0 sigma (exp mu) = 0"
    by (simp add: scipy_lognorm_cdf_nonpos)
  moreover have "\<exists>v. lognorm_cdf (10 * scale * exp (5 * sigma)) sigma scale = Fin v \<and> 0.999 < v"
    using lognorm_cdf_big by simp
  moreover have "0.999 < scipy_lognorm_cdf (10 * exp mu * exp (5 * sigma)) sigma (exp mu)"
    using scipy_lognorm_cdf_big by simp
  moreover have "eventually (\<lambda>x. \<bar>scipy_lognorm_cdf x sigma (exp mu) - 1\<bar> < e) at_top"
    using tendstoD [OF scipy_lognorm_cdf_tendsto assms] by (simp add: dist_real_def)
  ultimately show ?thesis
    using lognorm_cdf_eventually [OF assms] by simp
qed

theorem cumulative_limits_witness:
  "lognorm_cdf 0 sigma scale = Fin 0
     \<and> scipy_lognorm_cdf 0 sigma (exp mu) = 0
     \<and> (\<exists>v. lognorm_cdf (10 * scale * exp (5 * sigma)) sigma scale = Fin v \<and> 0.999 < v)
     \<and> 0.999 < scipy_lognorm_cdf (10 * exp mu * exp (5 * sigma)) sigma (exp mu)
     \<and> eventually (\<lambda>x. \<exists>v. lognorm_cdf x sigma scale = Fin v \<and> \<bar>v - 1\<bar> < 1 / 1000) at_top
     \<and> eventually (\<lambda>x. \<bar>scipy_lognorm_cdf x sigma (exp mu) - 1\<bar> < 1 / 1000) at_top"
  using cumulative_limits [of "1 / 1000"] by simp

section \<open>Additivity and head count\<close>

text \<open>
  C8. Range probabilities are additive over adjacent intervals: for \<open>0 \<le> a \<le> b \<le> c\<close>
  the probability of \<open>[a, b]\<close> plus that of \<open>[b, c]\<close> is that of \<open>[a, c]\<close>, in both
  scripts, in exact arithmetic.
\<close>

theorem range_probability_additive:
  assumes "0 \<le> a" "a \<le> b" "b \<le> c"
  shows "prob_between a b + prob_between b c = prob_between a c
       \<and> np_add (prob a b) (prob b c) = prob a c"
proof -
  obtain u v w where
    "lognorm_cdf a sigma scale = Fin u" "lognorm_cdf b sigma scale = Fin v"
    "lognorm_cdf c sigma scale = Fin w"
    using lognorm_cdf_finite [of a] lognorm_cdf_finite [of b] lognorm_cdf_finite [of c] assms
    by fastforce
  then show ?thesis
    by (simp add: prob_between_def prob_def np_sub_def)
qed

theorem range_probability_additive_witness:
  "prob_between 0 25000 + prob_between 25000 100000 = prob_between 0 100000
     \<and> np_add (prob 0 25000) (prob 25000 100000) = prob 0 100000"
  using range_probability_additive [of 0 25000 100000] by simp

text \<open>
  C9. The head count of a range is its probability times the fixed population of
  20,000,000, in both scripts.
\<close>

theorem people_in_range:
  "people low high = np_mul (prob low high) (Fin 20000000)
     \<and> num_people low high = prob_between low high * 20000000"
  by (simp add: people_def num_people_def total_pop_def total_population_def)

end
